theory Spec2Isabelle
  imports Main "HOL-Library.Word"
begin

section \<open>The key-matrix scanner of sketch.ino\<close>

text \<open>
  The sketch drives the eight column lines of a key matrix through a serial-in,
  parallel-out shift register, samples nine row lines per column and prints the
  8 x 9 table once per second. The embedding keeps the sketch's globals in a
  record, passes that record through every function, and records each call of
  the board's I/O library as an event of a trace, in program order. Values the
  program obtains from outside (the level of an input pin, the millisecond
  clock) come from a \<open>world\<close>, which may depend on everything that has
  happened so far.
\<close>

subsection \<open>Constants of the sketch\<close>

definition datapin :: nat where "datapin = 18"
definition latchpin :: nat where "latchpin = 19"
definition clockpin :: nat where "clockpin = 17"

definition rowPins :: "nat list" where
  "rowPins = [34, 35, 32, 33, 25, 26, 27, 13, 4]"

definition columnSignals :: "8 word list" where
  "columnSignals = [1, 2, 4, 8, 16, 32, 64, 128]"

definition printInterval :: "32 word" where "printInterval = 1000"

subsection \<open>Calls of the I/O library, as events\<close>

datatype level = LOW | HIGH

datatype bitOrder = LSBFIRST | MSBFIRST

datatype pinMode = OUTPUT | INPUT_PULLDOWN

datatype event =
    SerialBegin nat
  | PinMode nat pinMode
  | DigitalWrite nat level
  | ShiftOut nat nat bitOrder "8 word"
  | DelayMicroseconds nat
  | DigitalRead nat int
  | Millis "32 word"
  | SerialPrint string
  | SerialPrintInt int
  | SerialPrintln string

text \<open>
  \<open>DigitalRead p v\<close> records that \<open>digitalRead(p)\<close> returned \<open>v\<close>, and
  \<open>Millis t\<close> that \<open>millis()\<close> returned \<open>t\<close>. \<open>unsigned long\<close> has 32 bits on
  the board the sketch is written for.
\<close>

record world =
  pin_level :: "event list \<Rightarrow> nat \<Rightarrow> level"
  clock :: "event list \<Rightarrow> 32 word"

record state =
  matrix :: "int list list"
  lastPrintTime :: "32 word"
  trace :: "event list"

definition emit :: "event \<Rightarrow> state \<Rightarrow> state" where
  "emit e s = s\<lparr>trace := trace s @ [e]\<rparr>"

definition level_value :: "level \<Rightarrow> int" where
  "level_value l = (case l of LOW \<Rightarrow> 0 | HIGH \<Rightarrow> 1)"

definition digitalRead :: "world \<Rightarrow> nat \<Rightarrow> state \<Rightarrow> int \<times> state" where
  "digitalRead w pin s =
     (let v = level_value (pin_level w (trace s) pin)
      in (v, emit (DigitalRead pin v) s))"

definition millis :: "world \<Rightarrow> state \<Rightarrow> 32 word \<times> state" where
  "millis w s = (let t = clock w (trace s) in (t, emit (Millis t) s))"

text \<open>The globals at start-up: a zeroed 8 x 9 table and a zero timestamp.\<close>

definition init_state :: state where
  "init_state =
     \<lparr>matrix = replicate 8 (replicate 9 0), lastPrintTime = 0, trace = []\<rparr>"

subsection \<open>The shift-register driver\<close>

definition clearAllColumns :: "state \<Rightarrow> state" where
  "clearAllColumns s =
     (let s = emit (DigitalWrite latchpin LOW) s;
          s = emit (ShiftOut datapin clockpin LSBFIRST 0) s;
          s = emit (DigitalWrite latchpin HIGH) s
      in s)"

definition activateColumn :: "8 word \<Rightarrow> state \<Rightarrow> state" where
  "activateColumn colValue s =
     (let s = emit (DigitalWrite latchpin LOW) s;
          s = emit (ShiftOut datapin clockpin LSBFIRST colValue) s;
          s = emit (DigitalWrite latchpin HIGH) s
      in s)"

subsection \<open>Start-up\<close>

text \<open>The sketch's \<open>setup()\<close>; named \<open>setup_fn\<close> here, the plain name being reserved.\<close>

function setupRows :: "nat \<Rightarrow> state \<Rightarrow> state" where
  "setupRows i s =
     (if i < 9 then setupRows (i + 1) (emit (PinMode (rowPins ! i) INPUT_PULLDOWN) s)
      else s)"
  by pat_completeness auto
termination
  by (relation "measure (\<lambda>(i, s). 9 - i)") auto

declare setupRows.simps [simp del]

definition setup_fn :: "state \<Rightarrow> state" where
  "setup_fn s =
     (let s = emit (SerialBegin 115200) s;
          s = emit (PinMode datapin OUTPUT) s;
          s = emit (PinMode clockpin OUTPUT) s;
          s = emit (PinMode latchpin OUTPUT) s;
          s = setupRows 0 s
      in clearAllColumns s)"

subsection \<open>loop: the sweep\<close>

text \<open>
  The inner loop of the sweep: the nine row reads of one column. The store
  \<open>matrix[col][row] = v\<close> is a list update; the loops keep \<open>col\<close> below 8 and
  \<open>row\<close> below 9, inside the array \<open>int matrix[8][9]\<close> (see \<open>wf_matrix\<close>).
\<close>

function readRows :: "world \<Rightarrow> nat \<Rightarrow> nat \<Rightarrow> state \<Rightarrow> state" where
  "readRows w col row s =
     (if row < 9 then
        (let (v, s) = digitalRead w (rowPins ! row) s;
             s = s\<lparr>matrix := (matrix s)[col := (matrix s ! col)[row := v]]\<rparr>
         in readRows w col (row + 1) s)
      else s)"
  by pat_completeness auto
termination
  by (relation "measure (\<lambda>(w, col, row, s). 9 - row)") auto

declare readRows.simps [simp del]

text \<open>The outer loop of the sweep: activate, settle, read, for each column.\<close>

function scanColumns :: "world \<Rightarrow> nat \<Rightarrow> state \<Rightarrow> state" where
  "scanColumns w col s =
     (if col < 8 then
        (let s = activateColumn (columnSignals ! col) s;
             s = emit (DelayMicroseconds 30) s;
             s = readRows w col 0 s
         in scanColumns w (col + 1) s)
      else s)"
  by pat_completeness auto
termination
  by (relation "measure (\<lambda>(w, col, s). 8 - col)") auto

declare scanColumns.simps [simp del]

text \<open>Lines 91 to 105 of the sketch: the column loop, then the clear.\<close>

definition scanMatrix :: "world \<Rightarrow> state \<Rightarrow> state" where
  "scanMatrix w s = clearAllColumns (scanColumns w 0 s)"

subsection \<open>loop: the report\<close>

function printHeader :: "nat \<Rightarrow> state \<Rightarrow> state" where
  "printHeader col s =
     (if col < 8 then
        (let s = emit (SerialPrint ''C'') s;
             s = emit (SerialPrintInt (int col)) s;
             s = emit (SerialPrint '' '') s
         in printHeader (col + 1) s)
      else s)"
  by pat_completeness auto
termination
  by (relation "measure (\<lambda>(col, s). 8 - col)") auto

declare printHeader.simps [simp del]

function printCells :: "nat \<Rightarrow> nat \<Rightarrow> state \<Rightarrow> state" where
  "printCells row col s =
     (if col < 8 then
        (let s = emit (SerialPrint '' '') s;
             s = emit (SerialPrintInt (matrix s ! col ! row)) s;
             s = emit (SerialPrint '' '') s
         in printCells row (col + 1) s)
      else s)"
  by pat_completeness auto
termination
  by (relation "measure (\<lambda>(row, col, s). 8 - col)") auto

declare printCells.simps [simp del]

function printRows :: "nat \<Rightarrow> state \<Rightarrow> state" where
  "printRows row s =
     (if row < 9 then
        (let s = emit (SerialPrint ''R'') s;
             s = emit (SerialPrintInt (int row)) s;
             s = emit (SerialPrint '':  '') s;
             s = printCells row 0 s;
             s = emit (SerialPrintln '''') s
         in printRows (row + 1) s)
      else s)"
  by pat_completeness auto
termination
  by (relation "measure (\<lambda>(row, s). 9 - row)") auto

declare printRows.simps [simp del]

text \<open>The body of the \<open>if\<close> at line 110.\<close>

definition printMatrix :: "world \<Rightarrow> state \<Rightarrow> state" where
  "printMatrix w s =
     (let (t, s) = millis w s;
          s = s\<lparr>lastPrintTime := t\<rparr>;
          s = emit (SerialPrintln ''Matrix (Rows Vertically, Cols Horizontally):'') s;
          s = emit (SerialPrint ''     '') s;
          s = printHeader 0 s;
          s = emit (SerialPrintln '''') s;
          s = printRows 0 s
      in emit (SerialPrintln ''------------------------'') s)"

text \<open>Lines 110 to 134: the cadence gate and the report behind it.\<close>

definition report :: "world \<Rightarrow> state \<Rightarrow> state" where
  "report w s =
     (let (now, s) = millis w s
      in if now - lastPrintTime s \<ge> printInterval then printMatrix w s else s)"

definition loop :: "world \<Rightarrow> state \<Rightarrow> state" where
  "loop w s = report w (scanMatrix w s)"

subsection \<open>Observing a trace\<close>

text \<open>The events a call appended: those of \<open>s'\<close> beyond the ones \<open>s\<close> already had.\<close>

definition events_since :: "state \<Rightarrow> state \<Rightarrow> event list" where
  "events_since s s' = drop (length (trace s)) (trace s')"

text \<open>
  The steps of a sweep that the driver, the settle delay and the row sampler
  leave in a trace: a byte sent to the shift register, a delay, a row read.
\<close>

datatype phase = Drive "8 word" | Settle nat | Sample nat

fun phase_of :: "event \<Rightarrow> phase list" where
  "phase_of (ShiftOut d c ord v) = [Drive v]"
| "phase_of (DelayMicroseconds n) = [Settle n]"
| "phase_of (DigitalRead p v) = [Sample p]"
| "phase_of _ = []"

definition phases :: "event list \<Rightarrow> phase list" where
  "phases es = concat (map phase_of es)"

text \<open>The bytes sent to the shift register, in order.\<close>

fun sent_byte :: "event \<Rightarrow> 8 word list" where
  "sent_byte (ShiftOut d c ord v) = [v]"
| "sent_byte _ = []"

definition transmitted :: "event list \<Rightarrow> 8 word list" where
  "transmitted es = concat (map sent_byte es)"

text \<open>
  Every row read of a trace, with the byte most recently sent to the shift
  register before it: (byte, pin, value read). \<open>cur\<close> is the byte sent last
  before the trace starts.
\<close>

fun scans :: "8 word \<Rightarrow> event list \<Rightarrow> (8 word \<times> nat \<times> int) list" where
  "scans cur [] = []"
| "scans cur (ShiftOut d c ord v # es) = scans v es"
| "scans cur (DigitalRead p v # es) = (cur, p, v) # scans cur es"
| "scans cur (e # es) = scans cur es"

fun is_serial :: "event \<Rightarrow> bool" where
  "is_serial (SerialPrint x) = True"
| "is_serial (SerialPrintInt n) = True"
| "is_serial (SerialPrintln x) = True"
| "is_serial _ = False"

text \<open>Whether a call of \<open>loop\<close> from \<open>s\<close> writes anything to the serial port.\<close>

definition emits :: "world \<Rightarrow> state \<Rightarrow> bool" where
  "emits w s = list_ex is_serial (events_since s (loop w s))"

text \<open>The table has eight columns of nine entries each, as the array has.\<close>

definition wf_matrix :: "int list list \<Rightarrow> bool" where
  "wf_matrix m = (length m = 8 \<and> list_all (\<lambda>column. length column = 9) m)"

subsection \<open>The shift register and the key matrix\<close>

text \<open>
  Modelled from the spec: the shift register chip and the key matrix are
  hardware, outside the sketch. Section 4.1 of the specification says that
  the driver drops the latch-enable line, transmits the byte over the data and
  clock lines, and that raising the latch-enable line commits the transmitted
  byte to the parallel outputs; section 6 says that bit \<open>c\<close> of the byte is
  column \<open>c\<close>. So the chip holds the byte shifted in last (\<open>shift_stage\<close>) and
  copies it to its \<open>outputs\<close> on a rising edge of the latch line; a byte sent
  most-significant bit first arrives mirrored.
\<close>

record hw =
  latch :: level
  shift_stage :: "8 word"
  outputs :: "8 word"

fun hw_step :: "event \<Rightarrow> hw \<Rightarrow> hw" where
  "hw_step (ShiftOut d c ord v) h =
     (if d = datapin \<and> c = clockpin
      then h\<lparr>shift_stage := (case ord of LSBFIRST \<Rightarrow> v | MSBFIRST \<Rightarrow> word_reverse v)\<rparr>
      else h)"
| "hw_step (DigitalWrite p l) h =
     (if p = latchpin
      then (if latch h = LOW \<and> l = HIGH
            then h\<lparr>latch := HIGH, outputs := shift_stage h\<rparr>
            else h\<lparr>latch := l\<rparr>)
      else h)"
| "hw_step _ h = h"

definition hw_after :: "hw \<Rightarrow> event list \<Rightarrow> hw" where
  "hw_after h es = fold hw_step es h"

text \<open>
  Modelled from the spec: section 4.3 says that a row line, biased low, reads
  true only while a closed key contact connects it to the column that is
  driven high. \<open>K\<close> lists the closed contacts as (column, row) pairs; the
  contacts are diode-isolated, so a row is driven exactly by the closed
  contacts on it whose column output is high.
\<close>

definition row_driven :: "(nat \<times> nat) list \<Rightarrow> 8 word \<Rightarrow> nat \<Rightarrow> bool" where
  "row_driven K out pin =
     list_ex (\<lambda>(c, r). c < 8 \<and> r < 9 \<and> bit out c \<and> rowPins ! r = pin) K"

text \<open>
  The world of a keyboard with closed contacts \<open>K\<close>, a shift register that
  was in state \<open>h0\<close> when the trace began, and a clock \<open>clk\<close>.
\<close>

definition keyboard :: "(nat \<times> nat) list \<Rightarrow> hw \<Rightarrow> (event list \<Rightarrow> 32 word) \<Rightarrow> world" where
  "keyboard K h0 clk =
     \<lparr>pin_level = (\<lambda>tr pin. if row_driven K (outputs (hw_after h0 tr)) pin then HIGH else LOW),
      clock = clk\<rparr>"

text \<open>At most one of the eight column outputs is high.\<close>

definition at_most_one_high :: "8 word \<Rightarrow> bool" where
  "at_most_one_high out = (length (filter (bit out) [0..<8]) \<le> 1)"

text \<open>
  Whether, at every row read of a trace, at most one column output is high,
  for a shift register in state \<open>h\<close> when the trace starts.
\<close>

fun exclusive_reads :: "hw \<Rightarrow> event list \<Rightarrow> bool" where
  "exclusive_reads h [] = True"
| "exclusive_reads h (DigitalRead p v # es) =
     (at_most_one_high (outputs h) \<and> exclusive_reads h es)"
| "exclusive_reads h (e # es) = exclusive_reads (hw_step e h) es"

subsection \<open>Vocabulary of the statements and of their proofs\<close>

text \<open>
  \<open>erase\<close> forgets what the outside world answered: the value of a row read and
  the reading of the clock. What is left of a trace is what the program did.
\<close>

fun erase :: "event \<Rightarrow> event" where
  "erase (DigitalRead p v) = DigitalRead p 0"
| "erase (Millis t) = Millis 0"
| "erase e = e"

text \<open>The events of one sweep, the values read forgotten.\<close>

definition sweep_shape :: "event list" where
  "sweep_shape =
     concat (map (\<lambda>c. [DigitalWrite latchpin LOW,
                       ShiftOut datapin clockpin LSBFIRST (columnSignals ! c),
                       DigitalWrite latchpin HIGH, DelayMicroseconds 30]
                      @ map (\<lambda>r. DigitalRead (rowPins ! r) 0) [0..<9]) [0..<8])
     @ [DigitalWrite latchpin LOW, ShiftOut datapin clockpin LSBFIRST 0,
        DigitalWrite latchpin HIGH]"

text \<open>The events of the scan of column \<open>c\<close> when the table ends up as \<open>m\<close>.\<close>

definition column_events :: "int list list \<Rightarrow> nat \<Rightarrow> event list" where
  "column_events m c =
     [DigitalWrite latchpin LOW, ShiftOut datapin clockpin LSBFIRST (columnSignals ! c),
      DigitalWrite latchpin HIGH, DelayMicroseconds 30]
     @ map (\<lambda>r. DigitalRead (rowPins ! r) (m ! c ! r)) [0..<9]"

text \<open>The events of the report: clock readings and serial output.\<close>

fun is_report :: "event \<Rightarrow> bool" where
  "is_report (Millis t) = True"
| "is_report (SerialPrint x) = True"
| "is_report (SerialPrintInt n) = True"
| "is_report (SerialPrintln x) = True"
| "is_report _ = False"

text \<open>
  A step from \<open>s\<close> to \<open>s'\<close> that leaves the table and the timestamp alone and
  appends only events of one kind.
\<close>

definition only_emits :: "(event \<Rightarrow> bool) \<Rightarrow> state \<Rightarrow> state \<Rightarrow> bool" where
  "only_emits P s s' =
     (matrix s' = matrix s \<and> lastPrintTime s' = lastPrintTime s \<and>
      (\<exists>es. trace s' = trace s @ es \<and> list_all P es))"

text \<open>
  Two runs see the same row lines: whatever happens from \<open>s1\<close> in the world
  \<open>w1\<close> and from \<open>s2\<close> in the world \<open>w2\<close>, as long as it is the same events
  in both, every pin reads the same in both.
\<close>

definition same_inputs :: "world \<Rightarrow> state \<Rightarrow> world \<Rightarrow> state \<Rightarrow> bool" where
  "same_inputs w1 s1 w2 s2 =
     (\<forall>es pin. pin_level w1 (trace s1 @ es) pin = pin_level w2 (trace s2 @ es) pin)"

text \<open>
  The two clock readings of a call of \<open>loop\<close> from \<open>s\<close>: the one the gate at
  line 110 compares, and the one line 111 stores when the gate is open.
\<close>

definition gate_time :: "world \<Rightarrow> state \<Rightarrow> 32 word" where
  "gate_time w s = fst (millis w (scanMatrix w s))"

definition stamp_time :: "world \<Rightarrow> state \<Rightarrow> 32 word" where
  "stamp_time w s = fst (millis w (snd (millis w (scanMatrix w s))))"

text \<open>
  Whether, in a list of bytes sent to the shift register, a clear (the zero
  byte) lies between any two activations (nonzero bytes) that follow one
  another.
\<close>

fun clears_intervene :: "8 word list \<Rightarrow> bool" where
  "clears_intervene (a # b # bs) = ((a = 0 \<or> b = 0) \<and> clears_intervene (b # bs))"
| "clears_intervene bs = True"

subsection \<open>Concrete worlds\<close>

text \<open>No key pressed and a clock that stands at zero.\<close>

definition quiet_world :: world where
  "quiet_world = \<lparr>pin_level = (\<lambda>tr pin. LOW), clock = (\<lambda>tr. 0)\<rparr>"

text \<open>A clock that stands at \<open>t\<close>.\<close>

definition clock_at :: "32 word \<Rightarrow> event list \<Rightarrow> 32 word" where
  "clock_at t tr = t"

text \<open>A shift register with nothing shifted in and nothing latched.\<close>

definition idle_hw :: hw where
  "idle_hw = \<lparr>latch = LOW, shift_stage = 0, outputs = 0\<rparr>"

section \<open>Auxiliary facts\<close>

subsection \<open>Loops, one turn at a time\<close>

lemma trace_emit [simp]: "trace (emit e s) = trace s @ [e]"
  and matrix_emit [simp]: "matrix (emit e s) = matrix s"
  and lastPrintTime_emit [simp]: "lastPrintTime (emit e s) = lastPrintTime s"
  by (simp_all add: emit_def)

lemma events_sinceI: "trace s' = trace s @ es \<Longrightarrow> events_since s s' = es"
  by (simp add: events_since_def)

lemma trace_activateColumn [simp]:
  "trace (activateColumn v s) =
     trace s @ [DigitalWrite latchpin LOW, ShiftOut datapin clockpin LSBFIRST v,
                DigitalWrite latchpin HIGH]"
  and matrix_activateColumn [simp]: "matrix (activateColumn v s) = matrix s"
  and lastPrintTime_activateColumn [simp]:
    "lastPrintTime (activateColumn v s) = lastPrintTime s"
  by (simp_all add: activateColumn_def)

lemma clearAllColumns_eq: "clearAllColumns s = activateColumn 0 s"
  by (simp add: clearAllColumns_def activateColumn_def)

text \<open>One turn of the row loop: the state after the read and the store.\<close>

lemma readRows_step:
  "row < 9 \<Longrightarrow> readRows w col row s =
     readRows w col (Suc row)
       (emit (DigitalRead (rowPins ! row) (level_value (pin_level w (trace s) (rowPins ! row)))) s
          \<lparr>matrix := (matrix s)[col := (matrix s ! col)
               [row := level_value (pin_level w (trace s) (rowPins ! row))]]\<rparr>)"
  by (subst readRows.simps) (simp add: digitalRead_def Let_def)

lemma readRows_done: "\<not> row < 9 \<Longrightarrow> readRows w col row s = s"
  by (subst readRows.simps) simp

lemma readRows_induct [case_names turn]:
  assumes "\<And>row s. (row < 9 \<Longrightarrow>
      P (Suc row)
        (emit (DigitalRead (rowPins ! row) (level_value (pin_level w (trace s) (rowPins ! row)))) s
          \<lparr>matrix := (matrix s)[col := (matrix s ! col)
               [row := level_value (pin_level w (trace s) (rowPins ! row))]]\<rparr>)) \<Longrightarrow> P row s"
  shows "P row s"
proof (induction "9 - row" arbitrary: row s)
  case (0 row s)
  then have "\<not> row < 9" by simp
  then show ?case using assms [of row s] by blast
next
  case (Suc n row s)
  then have "n = 9 - Suc row" by simp
  then have "P (Suc row)
        (emit (DigitalRead (rowPins ! row) (level_value (pin_level w (trace s) (rowPins ! row)))) s
          \<lparr>matrix := (matrix s)[col := (matrix s ! col)
               [row := level_value (pin_level w (trace s) (rowPins ! row))]]\<rparr>)"
    by (rule Suc.hyps(1))
  then show ?case using assms [of row s] by blast
qed

lemma scanColumns_step:
  "col < 8 \<Longrightarrow> scanColumns w col s =
     scanColumns w (Suc col)
       (readRows w col 0 (emit (DelayMicroseconds 30) (activateColumn (columnSignals ! col) s)))"
  by (subst scanColumns.simps) (simp add: Let_def)

lemma scanColumns_done: "\<not> col < 8 \<Longrightarrow> scanColumns w col s = s"
  by (subst scanColumns.simps) simp

lemma scanColumns_induct [case_names turn]:
  assumes "\<And>col s. (col < 8 \<Longrightarrow>
      P (Suc col)
        (readRows w col 0 (emit (DelayMicroseconds 30) (activateColumn (columnSignals ! col) s))))
      \<Longrightarrow> P col s"
  shows "P col s"
proof (induction "8 - col" arbitrary: col s)
  case (0 col s)
  then have "\<not> col < 8" by simp
  then show ?case using assms [of col s] by blast
next
  case (Suc n col s)
  then have "n = 8 - Suc col" by simp
  then have "P (Suc col)
        (readRows w col 0 (emit (DelayMicroseconds 30) (activateColumn (columnSignals ! col) s)))"
    by (rule Suc.hyps(1))
  then show ?case using assms [of col s] by blast
qed

lemma lastPrintTime_readRows [simp]:
  "lastPrintTime (readRows w col row s) = lastPrintTime s"
proof (induction row s rule: readRows_induct [where w = w and col = col])
  case (turn row s)
  show ?case
  proof (cases "row < 9")
    case True
    show ?thesis
      unfolding readRows_step [OF True] turn [OF True] by simp
  next
    case False
    then show ?thesis by (simp add: readRows_done)
  qed
qed

lemma lastPrintTime_scanColumns [simp]:
  "lastPrintTime (scanColumns w col s) = lastPrintTime s"
proof (induction col s rule: scanColumns_induct [where w = w])
  case (turn col s)
  show ?case
  proof (cases "col < 8")
    case True
    show ?thesis
      unfolding scanColumns_step [OF True] turn [OF True] by simp
  next
    case False
    then show ?thesis by (simp add: scanColumns_done)
  qed
qed

lemma readRows_shape:
  "row \<le> 9 \<Longrightarrow> \<exists>es. trace (readRows w col row s) = trace s @ es \<and>
     map erase es = map (\<lambda>r. DigitalRead (rowPins ! r) 0) [row..<9]"
proof (induction row s rule: readRows_induct [where w = w and col = col])
  case (turn row s)
  show ?case
  proof (cases "row < 9")
    case True
    let ?e = "DigitalRead (rowPins ! row) (level_value (pin_level w (trace s) (rowPins ! row)))"
    from turn(1) [OF True] True obtain es where es:
      "trace (readRows w col row s) = (trace s @ [?e]) @ es"
      "map erase es = map (\<lambda>r. DigitalRead (rowPins ! r) 0) [Suc row..<9]"
      unfolding readRows_step [OF True] by auto
    have "map erase (?e # es) = map (\<lambda>r. DigitalRead (rowPins ! r) 0) [row..<9]"
      using True es(2) by (simp add: upt_conv_Cons [of row])
    moreover have "trace (readRows w col row s) = trace s @ (?e # es)"
      using es(1) by simp
    ultimately show ?thesis by blast
  next
    case False
    with turn(2) have "row = 9" by simp
    then show ?thesis by (simp add: readRows_done)
  qed
qed

lemma scanColumns_shape:
  "col \<le> 8 \<Longrightarrow> \<exists>es. trace (scanColumns w col s) = trace s @ es \<and>
     map erase es =
       concat (map (\<lambda>c. [DigitalWrite latchpin LOW,
                         ShiftOut datapin clockpin LSBFIRST (columnSignals ! c),
                         DigitalWrite latchpin HIGH, DelayMicroseconds 30]
                        @ map (\<lambda>r. DigitalRead (rowPins ! r) 0) [0..<9]) [col..<8])"
proof (induction col s rule: scanColumns_induct [where w = w])
  case (turn col s)
  show ?case
  proof (cases "col < 8")
    case True
    let ?blk = "\<lambda>c. [DigitalWrite latchpin LOW,
                      ShiftOut datapin clockpin LSBFIRST (columnSignals ! c),
                      DigitalWrite latchpin HIGH, DelayMicroseconds 30]
                     @ map (\<lambda>r. DigitalRead (rowPins ! r) 0) [0..<9]"
    let ?a = "[DigitalWrite latchpin LOW,
               ShiftOut datapin clockpin LSBFIRST (columnSignals ! col),
               DigitalWrite latchpin HIGH, DelayMicroseconds 30]"
    let ?s0 = "emit (DelayMicroseconds 30) (activateColumn (columnSignals ! col) s)"
    let ?s1 = "readRows w col 0 ?s0"
    obtain es where es: "trace ?s1 = trace ?s0 @ es"
      "map erase es = map (\<lambda>r. DigitalRead (rowPins ! r) 0) [0..<9]"
      using readRows_shape [of 0 w col ?s0] by auto
    from turn(1) [OF True] True obtain fs where fs:
      "trace (scanColumns w col s) = trace ?s1 @ fs"
      "map erase fs = concat (map ?blk [Suc col..<8])"
      unfolding scanColumns_step [OF True] by auto
    have "trace (scanColumns w col s) = trace s @ (?a @ es @ fs)"
      using fs(1) es(1) by simp
    moreover have "map erase (?a @ es @ fs) = concat (map ?blk [col..<8])"
      using True es(2) fs(2) by (simp add: upt_conv_Cons [of col])
    ultimately show ?thesis by blast
  next
    case False
    with turn(2) have "col = 8" by simp
    then show ?thesis by (simp add: scanColumns_done)
  qed
qed

subsection \<open>The report only prints\<close>

lemma only_emits_refl: "only_emits P s s"
  by (simp add: only_emits_def)

lemma only_emits_emit: "P e \<Longrightarrow> only_emits P s (emit e s)"
  by (simp add: only_emits_def)

lemma only_emits_trans:
  "only_emits P s s' \<Longrightarrow> only_emits P s' s'' \<Longrightarrow> only_emits P s s''"
  by (auto simp add: only_emits_def)

lemma only_emits_emit_then:
  "P e \<Longrightarrow> only_emits P (emit e s) s' \<Longrightarrow> only_emits P s s'"
  by (rule only_emits_trans [OF only_emits_emit])

lemma only_emits_emit3:
  "P a \<Longrightarrow> P b \<Longrightarrow> P c \<Longrightarrow> only_emits P (emit c (emit b (emit a s))) s' \<Longrightarrow>
   only_emits P s s'"
  by (auto simp add: only_emits_def)

lemma printHeader_step:
  "col < 8 \<Longrightarrow> printHeader col s =
     printHeader (Suc col)
       (emit (SerialPrint '' '') (emit (SerialPrintInt (int col)) (emit (SerialPrint ''C'') s)))"
  by (subst printHeader.simps) (simp add: Let_def)

lemma printHeader_done: "\<not> col < 8 \<Longrightarrow> printHeader col s = s"
  by (subst printHeader.simps) simp

lemma printHeader_only: "only_emits is_serial s (printHeader col s)"
proof (induction "8 - col" arbitrary: col s)
  case (0 col s)
  then show ?case by (simp add: printHeader_done only_emits_refl)
next
  case (Suc n col s)
  then have lt: "col < 8" and n: "n = 8 - Suc col" by simp_all
  show ?case
    unfolding printHeader_step [OF lt]
    by (rule only_emits_emit3 [OF _ _ _ Suc.hyps(1) [OF n]]) simp_all
qed

lemma printCells_step:
  "col < 8 \<Longrightarrow> printCells row col s =
     printCells row (Suc col)
       (emit (SerialPrint '' '') (emit (SerialPrintInt (matrix s ! col ! row))
          (emit (SerialPrint '' '') s)))"
  by (subst printCells.simps) (simp add: Let_def)

lemma printCells_done: "\<not> col < 8 \<Longrightarrow> printCells row col s = s"
  by (subst printCells.simps) simp

lemma printCells_only: "only_emits is_serial s (printCells row col s)"
proof (induction "8 - col" arbitrary: col s)
  case (0 col s)
  then show ?case by (simp add: printCells_done only_emits_refl)
next
  case (Suc n col s)
  then have lt: "col < 8" and n: "n = 8 - Suc col" by simp_all
  show ?case
    unfolding printCells_step [OF lt]
    by (rule only_emits_emit3 [OF _ _ _ Suc.hyps(1) [OF n]]) simp_all
qed

lemma printRows_step:
  "row < 9 \<Longrightarrow> printRows row s =
     printRows (Suc row)
       (emit (SerialPrintln '''')
          (printCells row 0
             (emit (SerialPrint '':  '') (emit (SerialPrintInt (int row))
                (emit (SerialPrint ''R'') s)))))"
  by (subst printRows.simps) (simp add: Let_def)

lemma printRows_done: "\<not> row < 9 \<Longrightarrow> printRows row s = s"
  by (subst printRows.simps) simp

lemma printRows_only: "only_emits is_serial s (printRows row s)"
proof (induction "9 - row" arbitrary: row s)
  case (0 row s)
  then show ?case by (simp add: printRows_done only_emits_refl)
next
  case (Suc n row s)
  then have lt: "row < 9" and n: "n = 9 - Suc row" by simp_all
  let ?s3 = "emit (SerialPrint '':  '') (emit (SerialPrintInt (int row)) (emit (SerialPrint ''R'') s))"
  have a: "only_emits is_serial s ?s3"
    by (rule only_emits_emit3 [OF _ _ _ only_emits_refl]) simp_all
  have b: "only_emits is_serial ?s3 (emit (SerialPrintln '''') (printCells row 0 ?s3))"
    by (rule only_emits_trans [OF printCells_only only_emits_emit]) simp
  show ?case
    unfolding printRows_step [OF lt]
    by (rule only_emits_trans [OF only_emits_trans [OF a b] Suc.hyps(1) [OF n]])
qed

text \<open>What the report leaves behind once the gate is open.\<close>

lemma printMatrix_effect:
  "matrix (printMatrix w s) = matrix s \<and>
   lastPrintTime (printMatrix w s) = clock w (trace s) \<and>
   (\<exists>es. trace (printMatrix w s) =
           trace s @ Millis (clock w (trace s))
             # SerialPrintln ''Matrix (Rows Vertically, Cols Horizontally):'' # es
         \<and> list_all is_serial es)"
proof -
  let ?s1 = "emit (Millis (clock w (trace s))) s\<lparr>lastPrintTime := clock w (trace s)\<rparr>"
  let ?s2 = "emit (SerialPrintln ''Matrix (Rows Vertically, Cols Horizontally):'') ?s1"
  let ?s3 = "emit (SerialPrint ''     '') ?s2"
  let ?s4 = "emit (SerialPrintln '''') (printHeader 0 ?s3)"
  have eq: "printMatrix w s = emit (SerialPrintln ''------------------------'') (printRows 0 ?s4)"
    by (simp add: printMatrix_def millis_def Let_def)
  have a: "only_emits is_serial ?s2 ?s3"
    by (rule only_emits_emit) simp
  have b: "only_emits is_serial ?s3 ?s4"
    by (rule only_emits_trans [OF printHeader_only only_emits_emit]) simp
  have c: "only_emits is_serial ?s4 (printMatrix w s)"
    unfolding eq by (rule only_emits_trans [OF printRows_only only_emits_emit]) simp
  have "only_emits is_serial ?s2 (printMatrix w s)"
    by (rule only_emits_trans [OF only_emits_trans [OF a b] c])
  then show ?thesis
    by (simp add: only_emits_def)
qed

lemma report_closed:
  "\<not> printInterval \<le> clock w (trace s) - lastPrintTime s \<Longrightarrow>
   report w s = emit (Millis (clock w (trace s))) s"
  by (simp add: report_def millis_def Let_def)

lemma report_open:
  "printInterval \<le> clock w (trace s) - lastPrintTime s \<Longrightarrow>
   report w s = printMatrix w (emit (Millis (clock w (trace s))) s)"
  by (simp add: report_def millis_def Let_def)

lemma matrix_report [simp]: "matrix (report w s) = matrix s"
  by (cases "printInterval \<le> clock w (trace s) - lastPrintTime s")
     (simp_all add: report_open report_closed printMatrix_effect)

subsection \<open>The shape of a sweep\<close>

lemma scanMatrix_shape:
  "\<exists>es. trace (scanMatrix w s) = trace s @ es \<and> map erase es = sweep_shape"
proof -
  obtain es where es: "trace (scanColumns w 0 s) = trace s @ es"
    "map erase es =
       concat (map (\<lambda>c. [DigitalWrite latchpin LOW,
                         ShiftOut datapin clockpin LSBFIRST (columnSignals ! c),
                         DigitalWrite latchpin HIGH, DelayMicroseconds 30]
                        @ map (\<lambda>r. DigitalRead (rowPins ! r) 0) [0..<9]) [0..<8])"
    using scanColumns_shape [of 0 w s] by auto
  let ?c = "[DigitalWrite latchpin LOW, ShiftOut datapin clockpin LSBFIRST 0,
             DigitalWrite latchpin HIGH]"
  have "trace (scanMatrix w s) = trace s @ (es @ ?c)"
    using es(1) by (simp add: scanMatrix_def clearAllColumns_eq)
  moreover have "map erase (es @ ?c) = sweep_shape"
    using es(2) by (simp add: sweep_shape_def)
  ultimately show ?thesis by blast
qed

lemmas sweep_eval = sweep_shape_def upt_conv_Cons rowPins_def columnSignals_def
  latchpin_def datapin_def clockpin_def

subsection \<open>Observations of a trace\<close>

lemma phases_append [simp]: "phases (xs @ ys) = phases xs @ phases ys"
  by (simp add: phases_def)

lemma transmitted_append [simp]: "transmitted (xs @ ys) = transmitted xs @ transmitted ys"
  by (simp add: transmitted_def)

lemma hw_after_append [simp]: "hw_after h (xs @ ys) = hw_after (hw_after h xs) ys"
  by (simp add: hw_after_def)

lemma hw_after_Nil [simp]: "hw_after h [] = h"
  and hw_after_Cons [simp]: "hw_after h (e # es) = hw_after (hw_step e h) es"
  by (simp_all add: hw_after_def)

lemma phase_of_erase [simp]: "phase_of (erase e) = phase_of e"
  by (cases e) simp_all

lemma sent_byte_erase [simp]: "sent_byte (erase e) = sent_byte e"
  by (cases e) simp_all

lemma hw_step_erase [simp]: "hw_step (erase e) h = hw_step e h"
  by (cases e) simp_all

lemma is_serial_erase [simp]: "is_serial (erase e) = is_serial e"
  by (cases e) simp_all

lemma phases_erase: "phases (map erase es) = phases es"
  by (induction es) (simp_all add: phases_def)

lemma transmitted_erase: "transmitted (map erase es) = transmitted es"
  by (induction es) (simp_all add: transmitted_def)

lemma hw_after_erase: "hw_after h (map erase es) = hw_after h es"
  by (induction es arbitrary: h) simp_all

lemma exclusive_reads_erase: "exclusive_reads h (map erase es) = exclusive_reads h es"
proof (induction es arbitrary: h)
  case Nil
  show ?case by simp
next
  case (Cons e es)
  then show ?case by (cases e) simp_all
qed

lemma list_ex_is_serial_erase: "list_ex is_serial (map erase es) = list_ex is_serial es"
  by (induction es) simp_all

lemma exclusive_reads_append:
  "exclusive_reads h (xs @ ys) \<longleftrightarrow>
     exclusive_reads h xs \<and> exclusive_reads (hw_after h xs) ys"
proof (induction xs arbitrary: h)
  case Nil
  show ?case by simp
next
  case (Cons e xs)
  then show ?case by (cases e) simp_all
qed

lemma report_phases: "list_all is_report es \<Longrightarrow> phases es = []"
proof (induction es)
  case Nil
  show ?case by (simp add: phases_def)
next
  case (Cons e es)
  then show ?case by (cases e) (simp_all add: phases_def)
qed

lemma report_transmitted: "list_all is_report es \<Longrightarrow> transmitted es = []"
proof (induction es)
  case Nil
  show ?case by (simp add: transmitted_def)
next
  case (Cons e es)
  then show ?case by (cases e) (simp_all add: transmitted_def)
qed

lemma report_hw_after: "list_all is_report es \<Longrightarrow> hw_after h es = h"
proof (induction es)
  case Nil
  show ?case by simp
next
  case (Cons e es)
  then show ?case by (cases e) simp_all
qed

lemma report_exclusive_reads: "list_all is_report es \<Longrightarrow> exclusive_reads h es"
proof (induction es)
  case Nil
  show ?case by simp
next
  case (Cons e es)
  then show ?case by (cases e) simp_all
qed

lemma report_scans: "list_all is_report es \<Longrightarrow> scans cur es = []"
proof (induction es)
  case Nil
  show ?case by simp
next
  case (Cons e es)
  then show ?case by (cases e) simp_all
qed

lemma serial_is_report: "list_all is_serial es \<Longrightarrow> list_all is_report es"
proof (induction es)
  case Nil
  show ?case by simp
next
  case (Cons e es)
  then show ?case by (cases e) simp_all
qed

lemma phases_sweep_shape:
  "phases sweep_shape =
     concat (map (\<lambda>c. Drive (columnSignals ! c) # Settle 30 # map Sample rowPins) [0..<8])
     @ [Drive 0]"
  by (simp add: sweep_eval phases_def)

lemma transmitted_sweep_shape: "transmitted sweep_shape = columnSignals @ [0]"
  by (simp add: sweep_eval transmitted_def)

lemma no_serial_sweep_shape: "\<not> list_ex is_serial sweep_shape"
  by (simp add: sweep_eval)

lemma hw_after_sweep_shape:
  "hw_after h sweep_shape = \<lparr>latch = HIGH, shift_stage = 0, outputs = 0\<rparr>"
  by (simp add: sweep_eval)

lemma below_8: "c < 8 \<Longrightarrow> c \<in> {0, 1, 2, 3, 4, 5, 6, 7::nat}"
  by auto

lemma columnSignals_nth: "c < 8 \<Longrightarrow> columnSignals ! c = 2 ^ c"
  using below_8 [of c] by (auto simp add: columnSignals_def)

lemma bit_columnSignals: "c < 8 \<Longrightarrow> bit (columnSignals ! c) i \<longleftrightarrow> i = c"
  by (auto simp add: columnSignals_nth bit_exp_iff)

lemma at_most_one_high_columnSignals: "c < 8 \<Longrightarrow> at_most_one_high (columnSignals ! c)"
proof -
  assume c: "c < 8"
  have "filter (bit (columnSignals ! c)) [0..<8] = filter (\<lambda>i. i = c) [0..<8]"
    using c by (intro filter_cong refl) (simp add: bit_columnSignals)
  moreover have "length (filter (\<lambda>i. i = c) [0..<8]) \<le> 1"
    by (simp add: distinct_length_filter card_le_Suc0_iff_eq)
  ultimately show ?thesis by (simp add: at_most_one_high_def)
qed

lemma at_most_one_high_lits:
  "at_most_one_high 1" "at_most_one_high 2" "at_most_one_high 4" "at_most_one_high 8"
  "at_most_one_high 16" "at_most_one_high 32" "at_most_one_high 64" "at_most_one_high 128"
  using at_most_one_high_columnSignals [of 0] at_most_one_high_columnSignals [of 1]
    at_most_one_high_columnSignals [of 2] at_most_one_high_columnSignals [of 3]
    at_most_one_high_columnSignals [of 4] at_most_one_high_columnSignals [of 5]
    at_most_one_high_columnSignals [of 6] at_most_one_high_columnSignals [of 7]
  by (simp_all add: columnSignals_def)

lemma exclusive_reads_sweep_shape: "exclusive_reads h sweep_shape"
  by (simp add: sweep_eval at_most_one_high_lits)

subsection \<open>One call of loop\<close>

lemma trace_scanMatrix:
  "trace (scanMatrix w s) = trace s @ events_since s (scanMatrix w s)"
  using scanMatrix_shape [of w s] by (auto simp add: events_since_def)

lemma erase_scanMatrix: "map erase (events_since s (scanMatrix w s)) = sweep_shape"
  using scanMatrix_shape [of w s] by (auto simp add: events_since_def)

lemma trace_scanColumns:
  "trace (scanColumns w 0 s) = trace s @ events_since s (scanColumns w 0 s)"
  using scanColumns_shape [of 0 w s] by (auto simp add: events_since_def)

lemma events_scanMatrix:
  "events_since s (scanMatrix w s) =
     events_since s (scanColumns w 0 s)
     @ [DigitalWrite latchpin LOW, ShiftOut datapin clockpin LSBFIRST 0,
        DigitalWrite latchpin HIGH]"
proof -
  have "trace (scanMatrix w s) =
      trace s @ (events_since s (scanColumns w 0 s)
        @ [DigitalWrite latchpin LOW, ShiftOut datapin clockpin LSBFIRST 0,
           DigitalWrite latchpin HIGH])"
    using trace_scanColumns [of w s] by (simp add: scanMatrix_def clearAllColumns_eq)
  then show ?thesis by (rule events_sinceI)
qed

lemma report_events:
  "\<exists>rs. trace (report w s) = trace s @ rs \<and> list_all is_report rs \<and>
     (list_ex is_serial rs \<longleftrightarrow> printInterval \<le> clock w (trace s) - lastPrintTime s)"
proof (cases "printInterval \<le> clock w (trace s) - lastPrintTime s")
  case True
  let ?s1 = "emit (Millis (clock w (trace s))) s"
  obtain es where es: "trace (printMatrix w ?s1) =
      trace ?s1 @ Millis (clock w (trace ?s1))
        # SerialPrintln ''Matrix (Rows Vertically, Cols Horizontally):'' # es"
    "list_all is_serial es"
    using printMatrix_effect [of w ?s1] by blast
  let ?rs = "Millis (clock w (trace s)) # Millis (clock w (trace ?s1))
        # SerialPrintln ''Matrix (Rows Vertically, Cols Horizontally):'' # es"
  have "trace (report w s) = trace s @ ?rs"
    using es(1) by (simp add: report_open [OF True])
  moreover have "list_all is_report ?rs"
    using serial_is_report [OF es(2)] by simp
  moreover have "list_ex is_serial ?rs" by simp
  ultimately show ?thesis using True by blast
next
  case False
  have "trace (report w s) = trace s @ [Millis (clock w (trace s))]"
    by (simp add: report_closed [OF False])
  moreover have "list_all is_report [Millis (clock w (trace s))]" by simp
  moreover have "\<not> list_ex is_serial [Millis (clock w (trace s))]" by simp
  ultimately show ?thesis using False by blast
qed

lemma trace_report: "trace (report w s) = trace s @ events_since s (report w s)"
  using report_events [of w s] by (auto simp add: events_since_def)

lemma report_events_quiet: "list_all is_report (events_since s (report w s))"
  using report_events [of w s] by (auto simp add: events_since_def)

lemma report_events_serial:
  "list_ex is_serial (events_since s (report w s)) \<longleftrightarrow>
     printInterval \<le> clock w (trace s) - lastPrintTime s"
  using report_events [of w s] by (auto simp add: events_since_def)

lemma lastPrintTime_report:
  "lastPrintTime (report w s) =
     (if printInterval \<le> clock w (trace s) - lastPrintTime s
      then clock w (trace s @ [Millis (clock w (trace s))])
      else lastPrintTime s)"
  by (simp add: report_open report_closed printMatrix_effect)

lemma events_loop:
  "events_since s (loop w s) =
     events_since s (scanMatrix w s) @ events_since (scanMatrix w s) (loop w s)"
proof -
  have "trace (loop w s) =
      trace s @ (events_since s (scanMatrix w s) @ events_since (scanMatrix w s) (loop w s))"
    using trace_report [of w "scanMatrix w s"] trace_scanMatrix [of w s]
    by (simp add: loop_def)
  then show ?thesis by (rule events_sinceI)
qed

lemma loop_report_quiet: "list_all is_report (events_since (scanMatrix w s) (loop w s))"
  unfolding loop_def by (rule report_events_quiet)

lemma matrix_clearAllColumns [simp]: "matrix (clearAllColumns s) = matrix s"
  and lastPrintTime_clearAllColumns [simp]:
    "lastPrintTime (clearAllColumns s) = lastPrintTime s"
  by (simp_all add: clearAllColumns_eq)

lemma lastPrintTime_scanMatrix [simp]: "lastPrintTime (scanMatrix w s) = lastPrintTime s"
  by (simp add: scanMatrix_def)

lemma matrix_loop: "matrix (loop w s) = matrix (scanColumns w 0 s)"
  by (simp add: loop_def scanMatrix_def)

lemma phases_loop:
  "phases (events_since s (loop w s)) =
     concat (map (\<lambda>c. Drive (columnSignals ! c) # Settle 30 # map Sample rowPins) [0..<8])
     @ [Drive 0]"
proof -
  have "phases (events_since s (scanMatrix w s)) = phases sweep_shape"
    using phases_erase [of "events_since s (scanMatrix w s)"]
    by (simp add: erase_scanMatrix)
  then show ?thesis
    by (simp add: events_loop report_phases [OF loop_report_quiet] phases_sweep_shape)
qed

lemma transmitted_scanMatrix:
  "transmitted (events_since s (scanMatrix w s)) = columnSignals @ [0]"
  using transmitted_erase [of "events_since s (scanMatrix w s)"]
  by (simp add: erase_scanMatrix transmitted_sweep_shape)

lemma transmitted_scanColumns:
  "transmitted (events_since s (scanColumns w 0 s)) = columnSignals"
  using transmitted_scanMatrix [of s w]
  by (simp add: events_scanMatrix transmitted_def)

lemma transmitted_loop:
  "transmitted (events_since s (loop w s)) = columnSignals @ [0]"
  by (simp add: events_loop report_transmitted [OF loop_report_quiet] transmitted_scanMatrix)

lemma hw_after_scanMatrix:
  "hw_after h (events_since s (scanMatrix w s)) = \<lparr>latch = HIGH, shift_stage = 0, outputs = 0\<rparr>"
  using hw_after_erase [of h "events_since s (scanMatrix w s)"]
  by (simp add: erase_scanMatrix hw_after_sweep_shape)

lemma hw_after_loop:
  "hw_after h (events_since s (loop w s)) = \<lparr>latch = HIGH, shift_stage = 0, outputs = 0\<rparr>"
  by (simp add: events_loop report_hw_after [OF loop_report_quiet] hw_after_scanMatrix)

lemma exclusive_reads_loop: "exclusive_reads h (events_since s (loop w s))"
proof -
  have "exclusive_reads h (events_since s (scanMatrix w s))"
    using exclusive_reads_erase [of h "events_since s (scanMatrix w s)"]
    by (simp add: erase_scanMatrix exclusive_reads_sweep_shape)
  then show ?thesis
    by (simp add: events_loop exclusive_reads_append
          report_exclusive_reads [OF loop_report_quiet])
qed

lemma emits_iff:
  "emits w s \<longleftrightarrow>
     printInterval \<le> clock w (trace (scanMatrix w s)) - lastPrintTime s"
proof -
  have "\<not> list_ex is_serial (events_since s (scanMatrix w s))"
    using list_ex_is_serial_erase [of "events_since s (scanMatrix w s)"]
    by (simp add: erase_scanMatrix no_serial_sweep_shape)
  moreover have "list_ex is_serial (events_since (scanMatrix w s) (loop w s)) \<longleftrightarrow>
      printInterval \<le> clock w (trace (scanMatrix w s)) - lastPrintTime s"
    using report_events_serial [of "scanMatrix w s" w] by (simp add: loop_def)
  ultimately show ?thesis
    unfolding emits_def events_loop by simp
qed

lemma lastPrintTime_loop:
  "lastPrintTime (loop w s) =
     (if emits w s
      then clock w (trace (scanMatrix w s) @ [Millis (clock w (trace (scanMatrix w s)))])
      else lastPrintTime s)"
  by (simp add: loop_def lastPrintTime_report emits_iff)

subsection \<open>The values stored\<close>

lemma wf_matrix_iff:
  "wf_matrix m \<longleftrightarrow> length m = 8 \<and> (\<forall>c<8. length (m ! c) = 9)"
  by (auto simp add: wf_matrix_def list_all_length)

lemma wf_matrix_store:
  "wf_matrix m \<Longrightarrow> wf_matrix (m[col := (m ! col)[row := v]])"
proof (cases "col < length m")
  case True
  assume "wf_matrix m"
  with True show ?thesis
    by (auto simp add: wf_matrix_iff nth_list_update)
next
  case False
  assume wf: "wf_matrix m"
  from False have "length m \<le> col" by linarith
  then have "m[col := (m ! col)[row := v]] = m" by (rule list_update_beyond)
  with wf show ?thesis by simp
qed

lemma nth_store:
  "col < length m \<Longrightarrow> row < length (m ! col) \<Longrightarrow>
   m[col := (m ! col)[row := v]] ! c ! r = (if c = col \<and> r = row then v else m ! c ! r)"
  by (simp add: nth_list_update)

lemma wf_matrix_readRows: "wf_matrix (matrix s) \<Longrightarrow> wf_matrix (matrix (readRows w col row s))"
proof (induction row s rule: readRows_induct [where w = w and col = col])
  case (turn row s)
  show ?case
  proof (cases "row < 9")
    case True
    show ?thesis
      unfolding readRows_step [OF True]
      by (rule turn(1) [OF True]) (simp add: wf_matrix_store turn(2))
  next
    case False
    with turn(2) show ?thesis by (simp add: readRows_done)
  qed
qed

text \<open>The row loop leaves alone what it has passed: other columns and earlier rows.\<close>

lemma readRows_frame:
  "wf_matrix (matrix s) \<Longrightarrow> col < 8 \<Longrightarrow> c \<noteq> col \<or> r < row \<Longrightarrow>
   matrix (readRows w col row s) ! c ! r = matrix s ! c ! r"
proof (induction row s rule: readRows_induct [where w = w and col = col])
  case (turn row s)
  show ?case
  proof (cases "row < 9")
    case True
    let ?v = "level_value (pin_level w (trace s) (rowPins ! row))"
    let ?s1 = "emit (DigitalRead (rowPins ! row) ?v) s
          \<lparr>matrix := (matrix s)[col := (matrix s ! col)[row := ?v]]\<rparr>"
    have wf1: "wf_matrix (matrix ?s1)"
      using turn(2) by (simp add: wf_matrix_store)
    have "matrix (readRows w col (Suc row) ?s1) ! c ! r = matrix ?s1 ! c ! r"
      using turn(4) by (intro turn(1) [OF True wf1 turn(3)]) auto
    moreover have "matrix ?s1 ! c ! r = matrix s ! c ! r"
      using turn(2,3,4) True by (auto simp add: wf_matrix_iff nth_store)
    ultimately show ?thesis
      unfolding readRows_step [OF True] by simp
  next
    case False
    then show ?thesis by (simp add: readRows_done)
  qed
qed

text \<open>The reads of the row loop, with the values it stored.\<close>

lemma readRows_values:
  "wf_matrix (matrix s) \<Longrightarrow> col < 8 \<Longrightarrow> row \<le> 9 \<Longrightarrow>
   trace (readRows w col row s) =
     trace s @ map (\<lambda>r. DigitalRead (rowPins ! r) (matrix (readRows w col row s) ! col ! r))
                 [row..<9]"
proof (induction row s rule: readRows_induct [where w = w and col = col])
  case (turn row s)
  show ?case
  proof (cases "row < 9")
    case True
    let ?v = "level_value (pin_level w (trace s) (rowPins ! row))"
    let ?s1 = "emit (DigitalRead (rowPins ! row) ?v) s
          \<lparr>matrix := (matrix s)[col := (matrix s ! col)[row := ?v]]\<rparr>"
    let ?s' = "readRows w col (Suc row) ?s1"
    have wf1: "wf_matrix (matrix ?s1)"
      using turn(2) by (simp add: wf_matrix_store)
    have ih: "trace ?s' =
        trace ?s1 @ map (\<lambda>r. DigitalRead (rowPins ! r) (matrix ?s' ! col ! r)) [Suc row..<9]"
      using True by (intro turn(1) [OF True wf1 turn(3)]) simp
    have "matrix ?s' ! col ! row = matrix ?s1 ! col ! row"
      by (rule readRows_frame [OF wf1 turn(3)]) simp
    also have "\<dots> = ?v"
      using turn(2,3) True by (simp add: wf_matrix_iff nth_store)
    finally have stored: "matrix ?s' ! col ! row = ?v" .
    show ?thesis
      unfolding readRows_step [OF True]
      using ih stored True by (simp add: upt_conv_Cons [of row])
  next
    case False
    with turn(4) have "row = 9" by simp
    then show ?thesis by (simp add: readRows_done)
  qed
qed

lemma wf_matrix_scanColumns:
  "wf_matrix (matrix s) \<Longrightarrow> wf_matrix (matrix (scanColumns w col s))"
proof (induction col s rule: scanColumns_induct [where w = w])
  case (turn col s)
  show ?case
  proof (cases "col < 8")
    case True
    show ?thesis
      unfolding scanColumns_step [OF True]
      by (rule turn(1) [OF True]) (simp add: wf_matrix_readRows turn(2))
  next
    case False
    with turn(2) show ?thesis by (simp add: scanColumns_done)
  qed
qed

lemma scanColumns_frame:
  "wf_matrix (matrix s) \<Longrightarrow> c < col \<Longrightarrow>
   matrix (scanColumns w col s) ! c ! r = matrix s ! c ! r"
proof (induction col s rule: scanColumns_induct [where w = w])
  case (turn col s)
  show ?case
  proof (cases "col < 8")
    case True
    let ?s0 = "emit (DelayMicroseconds 30) (activateColumn (columnSignals ! col) s)"
    let ?s1 = "readRows w col 0 ?s0"
    have wf0: "wf_matrix (matrix ?s0)" using turn(2) by simp
    have wf1: "wf_matrix (matrix ?s1)" by (rule wf_matrix_readRows [OF wf0])
    have "matrix (scanColumns w (Suc col) ?s1) ! c ! r = matrix ?s1 ! c ! r"
      using turn(3) by (intro turn(1) [OF True wf1]) simp
    also have "\<dots> = matrix ?s0 ! c ! r"
      using turn(3) by (intro readRows_frame [OF wf0 True]) simp
    finally show ?thesis
      unfolding scanColumns_step [OF True] by simp
  next
    case False
    then show ?thesis by (simp add: scanColumns_done)
  qed
qed

lemma column_events_cong:
  "(\<And>r. r < 9 \<Longrightarrow> m ! c ! r = m' ! c ! r) \<Longrightarrow> column_events m c = column_events m' c"
  by (simp add: column_events_def)

lemma scanColumns_values:
  "wf_matrix (matrix s) \<Longrightarrow> col \<le> 8 \<Longrightarrow>
   trace (scanColumns w col s) =
     trace s @ concat (map (column_events (matrix (scanColumns w col s))) [col..<8])"
proof (induction col s rule: scanColumns_induct [where w = w])
  case (turn col s)
  show ?case
  proof (cases "col < 8")
    case True
    let ?s0 = "emit (DelayMicroseconds 30) (activateColumn (columnSignals ! col) s)"
    let ?s1 = "readRows w col 0 ?s0"
    let ?s' = "scanColumns w (Suc col) ?s1"
    have wf0: "wf_matrix (matrix ?s0)" using turn(2) by simp
    have wf1: "wf_matrix (matrix ?s1)" by (rule wf_matrix_readRows [OF wf0])
    have ih: "trace ?s' = trace ?s1 @ concat (map (column_events (matrix ?s')) [Suc col..<8])"
      using True by (intro turn(1) [OF True wf1]) simp
    have rd: "trace ?s1 =
        trace ?s0 @ map (\<lambda>r. DigitalRead (rowPins ! r) (matrix ?s1 ! col ! r)) [0..<9]"
      by (rule readRows_values [OF wf0 True]) simp
    have same: "column_events (matrix ?s') col = column_events (matrix ?s1) col"
      by (rule column_events_cong) (simp add: scanColumns_frame [OF wf1])
    have "trace ?s' = trace s @ column_events (matrix ?s') col
        @ concat (map (column_events (matrix ?s')) [Suc col..<8])"
      unfolding same ih rd by (simp add: column_events_def)
    then show ?thesis
      unfolding scanColumns_step [OF True]
      using True by (simp add: upt_conv_Cons [of col])
  next
    case False
    with turn(3) have "col = 8" by simp
    then show ?thesis by (simp add: scanColumns_done)
  qed
qed

subsection \<open>The reads of a call, with their columns\<close>

lemma scans_reads_append:
  "scans cur (map (\<lambda>r. DigitalRead (f r) (g r)) rs @ es) =
     map (\<lambda>r. (cur, f r, g r)) rs @ scans cur es"
  by (induction rs) simp_all

lemma scans_column_events:
  "scans cur (column_events m c @ es) =
     map (\<lambda>r. (columnSignals ! c, rowPins ! r, m ! c ! r)) [0..<9]
     @ scans (columnSignals ! c) es"
  by (simp add: column_events_def scans_reads_append)

lemma scans_columns:
  "scans cur (concat (map (column_events m) cs)
      @ DigitalWrite p l # ShiftOut d k ord v # es) =
     concat (map (\<lambda>c. map (\<lambda>r. (columnSignals ! c, rowPins ! r, m ! c ! r)) [0..<9]) cs)
     @ scans v es"
proof (induction cs arbitrary: cur)
  case Nil
  show ?case by simp
next
  case (Cons c cs)
  show ?case
    using Cons [of "columnSignals ! c"] by (simp add: scans_column_events)
qed

lemma wf_matrix_loop: "wf_matrix (matrix s) \<Longrightarrow> wf_matrix (matrix (loop w s))"
  by (simp add: matrix_loop wf_matrix_scanColumns)

lemma events_loop_values:
  assumes "wf_matrix (matrix s)"
  shows "events_since s (loop w s) =
     concat (map (column_events (matrix (loop w s))) [0..<8])
     @ [DigitalWrite latchpin LOW, ShiftOut datapin clockpin LSBFIRST 0,
        DigitalWrite latchpin HIGH]
     @ events_since (scanMatrix w s) (loop w s)"
proof -
  have "trace (scanColumns w 0 s) =
      trace s @ concat (map (column_events (matrix (scanColumns w 0 s))) [0..<8])"
    by (rule scanColumns_values [OF assms]) simp
  then have "events_since s (scanColumns w 0 s) =
      concat (map (column_events (matrix (scanColumns w 0 s))) [0..<8])"
    by (rule events_sinceI)
  then show ?thesis
    by (simp add: events_loop events_scanMatrix matrix_loop)
qed

lemma scans_loop:
  assumes "wf_matrix (matrix s)"
  shows "scans cur (events_since s (loop w s)) =
     concat (map (\<lambda>c. map (\<lambda>r. (columnSignals ! c, rowPins ! r, matrix (loop w s) ! c ! r))
                          [0..<9]) [0..<8])"
proof -
  let ?m = "matrix (loop w s)"
  let ?rs = "events_since (scanMatrix w s) (loop w s)"
  have "scans cur (events_since s (loop w s)) =
      scans cur (concat (map (column_events ?m) [0..<8])
        @ DigitalWrite latchpin LOW
          # ShiftOut datapin clockpin LSBFIRST 0 # DigitalWrite latchpin HIGH # ?rs)"
    by (simp add: events_loop_values [OF assms])
  also have "\<dots> =
      concat (map (\<lambda>c. map (\<lambda>r. (columnSignals ! c, rowPins ! r, ?m ! c ! r)) [0..<9]) [0..<8])
      @ scans 0 (DigitalWrite latchpin HIGH # ?rs)"
    by (rule scans_columns)
  also have "scans 0 (DigitalWrite latchpin HIGH # ?rs) = []"
    by (simp add: report_scans [OF loop_report_quiet])
  finally show ?thesis by simp
qed

subsection \<open>The keyboard\<close>

lemma pin_level_keyboard [simp]:
  "pin_level (keyboard K h0 clk) tr pin =
     (if row_driven K (outputs (hw_after h0 tr)) pin then HIGH else LOW)"
  by (simp add: keyboard_def)

lemma outputs_activated:
  "outputs (hw_after h [DigitalWrite latchpin LOW, ShiftOut datapin clockpin LSBFIRST v,
                        DigitalWrite latchpin HIGH]) = v"
  by simp

lemma readRows_keyboard:
  "wf_matrix (matrix s) \<Longrightarrow> col < 8 \<Longrightarrow> row \<le> r \<Longrightarrow> r < 9 \<Longrightarrow>
   matrix (readRows (keyboard K h0 clk) col row s) ! col ! r =
     (if row_driven K (outputs (hw_after h0 (trace s))) (rowPins ! r) then 1 else 0)"
proof (induction row s rule: readRows_induct [where w = "keyboard K h0 clk" and col = col])
  case (turn row s)
  from turn(4,5) have lt: "row < 9" by simp
  let ?w = "keyboard K h0 clk"
  let ?v = "level_value (pin_level ?w (trace s) (rowPins ! row))"
  let ?s1 = "emit (DigitalRead (rowPins ! row) ?v) s
          \<lparr>matrix := (matrix s)[col := (matrix s ! col)[row := ?v]]\<rparr>"
  have wf1: "wf_matrix (matrix ?s1)"
    using turn(2) by (simp add: wf_matrix_store)
  have hw1: "hw_after h0 (trace ?s1) = hw_after h0 (trace s)"
    by simp
  show ?case
  proof (cases "r = row")
    case True
    have "matrix (readRows ?w col (Suc row) ?s1) ! col ! row = matrix ?s1 ! col ! row"
      by (rule readRows_frame [OF wf1 turn(3)]) simp
    also have "\<dots> = ?v"
      using turn(2,3) lt by (simp add: wf_matrix_iff nth_store)
    finally show ?thesis
      unfolding readRows_step [OF lt] True by (simp add: level_value_def)
  next
    case False
    with turn(4) have "Suc row \<le> r" by simp
    from turn(1) [OF lt wf1 turn(3) this turn(5)] show ?thesis
      unfolding readRows_step [OF lt] hw1 .
  qed
qed

lemma scanColumns_keyboard:
  "wf_matrix (matrix s) \<Longrightarrow> col \<le> c \<Longrightarrow> c < 8 \<Longrightarrow> r < 9 \<Longrightarrow>
   matrix (scanColumns (keyboard K h0 clk) col s) ! c ! r =
     (if row_driven K (columnSignals ! c) (rowPins ! r) then 1 else 0)"
proof (induction col s rule: scanColumns_induct [where w = "keyboard K h0 clk"])
  case (turn col s)
  from turn(3,4) have lt: "col < 8" by simp
  let ?w = "keyboard K h0 clk"
  let ?s0 = "emit (DelayMicroseconds 30) (activateColumn (columnSignals ! col) s)"
  let ?s1 = "readRows ?w col 0 ?s0"
  have wf0: "wf_matrix (matrix ?s0)" using turn(2) by simp
  have wf1: "wf_matrix (matrix ?s1)" by (rule wf_matrix_readRows [OF wf0])
  have out0: "outputs (hw_after h0 (trace ?s0)) = columnSignals ! col"
    by simp
  show ?case
  proof (cases "c = col")
    case True
    have "matrix (scanColumns ?w (Suc col) ?s1) ! col ! r = matrix ?s1 ! col ! r"
      by (rule scanColumns_frame [OF wf1]) simp
    also have "\<dots> = (if row_driven K (columnSignals ! col) (rowPins ! r) then 1 else 0)"
      using readRows_keyboard [OF wf0 lt _ turn(5), of 0 K h0 clk]
      unfolding out0 by simp
    finally show ?thesis
      unfolding scanColumns_step [OF lt] True .
  next
    case False
    with turn(3) have "Suc col \<le> c" by simp
    from turn(1) [OF lt wf1 this turn(4) turn(5)] show ?thesis
      unfolding scanColumns_step [OF lt] .
  qed
qed

lemma distinct_rowPins: "distinct rowPins" and length_rowPins: "length rowPins = 9"
  by (simp_all add: rowPins_def)

lemma row_driven_column:
  assumes "c < 8" and "r < 9"
  shows "row_driven K (columnSignals ! c) (rowPins ! r) \<longleftrightarrow> (c, r) \<in> set K"
proof -
  have "rowPins ! r' = rowPins ! r \<longleftrightarrow> r' = r" if "r' < 9" for r'
    using that assms(2) distinct_rowPins length_rowPins
    by (simp add: nth_eq_iff_index_eq)
  then show ?thesis
    using assms by (auto simp add: row_driven_def list_ex_iff bit_columnSignals)
qed

lemma loop_keyboard:
  "wf_matrix (matrix s) \<Longrightarrow> c < 8 \<Longrightarrow> r < 9 \<Longrightarrow>
   matrix (loop (keyboard K h0 clk) s) ! c ! r = (if (c, r) \<in> set K then 1 else 0)"
  using scanColumns_keyboard [of s 0 c r K h0 clk]
  by (simp add: matrix_loop row_driven_column)

lemma wf_matrix_eqI:
  assumes "wf_matrix m" and "wf_matrix m'"
    and "\<And>c r. c < 8 \<Longrightarrow> r < 9 \<Longrightarrow> m ! c ! r = m' ! c ! r"
  shows "m = m'"
proof (rule nth_equalityI)
  show "length m = length m'"
    using assms(1,2) by (simp add: wf_matrix_iff)
next
  fix c assume "c < length m"
  with assms(1) have c: "c < 8" by (simp add: wf_matrix_iff)
  show "m ! c = m' ! c"
  proof (rule nth_equalityI)
    show "length (m ! c) = length (m' ! c)"
      using assms(1,2) c by (simp add: wf_matrix_iff)
  next
    fix r assume "r < length (m ! c)"
    with assms(1) c have "r < 9" by (simp add: wf_matrix_iff)
    with c show "m ! c ! r = m' ! c ! r" by (rule assms(3))
  qed
qed

subsection \<open>Two runs that see the same row lines\<close>

lemma same_inputs_now:
  "same_inputs w1 s1 w2 s2 \<Longrightarrow> pin_level w1 (trace s1) pin = pin_level w2 (trace s2) pin"
  using same_inputs_def [of w1 s1 w2 s2] append_Nil2 by metis

lemma same_inputs_extend:
  assumes "same_inputs w1 s1 w2 s2"
    and "trace s1' = trace s1 @ es" and "trace s2' = trace s2 @ es"
  shows "same_inputs w1 s1' w2 s2'"
  using assms by (simp add: same_inputs_def)

lemma readRows_same_inputs:
  "same_inputs w1 s1 w2 s2 \<Longrightarrow> wf_matrix (matrix s1) \<Longrightarrow> wf_matrix (matrix s2) \<Longrightarrow>
   col < 8 \<Longrightarrow>
   same_inputs w1 (readRows w1 col row s1) w2 (readRows w2 col row s2) \<and>
   (\<forall>r. row \<le> r \<longrightarrow> r < 9 \<longrightarrow>
      matrix (readRows w1 col row s1) ! col ! r = matrix (readRows w2 col row s2) ! col ! r)"
proof (induction "9 - row" arbitrary: row s1 s2)
  case (0 row s1 s2)
  then have "\<not> row < 9" by simp
  with 0 show ?case by (simp add: readRows_done)
next
  case (Suc n row s1 s2)
  then have lt: "row < 9" and n: "n = 9 - Suc row" by simp_all
  let ?v = "level_value (pin_level w1 (trace s1) (rowPins ! row))"
  let ?t1 = "emit (DigitalRead (rowPins ! row) ?v) s1
          \<lparr>matrix := (matrix s1)[col := (matrix s1 ! col)[row := ?v]]\<rparr>"
  let ?t2 = "emit (DigitalRead (rowPins ! row) ?v) s2
          \<lparr>matrix := (matrix s2)[col := (matrix s2 ! col)[row := ?v]]\<rparr>"
  have v2: "level_value (pin_level w2 (trace s2) (rowPins ! row)) = ?v"
    using same_inputs_now [OF Suc.prems(1)] by simp
  have r1: "readRows w1 col row s1 = readRows w1 col (Suc row) ?t1"
    by (rule readRows_step [OF lt])
  have r2: "readRows w2 col row s2 = readRows w2 col (Suc row) ?t2"
    using readRows_step [OF lt, of w2 col s2] unfolding v2 .
  have wf1: "wf_matrix (matrix ?t1)" and wf2: "wf_matrix (matrix ?t2)"
    using Suc.prems(2,3) by (simp_all add: wf_matrix_store)
  have si: "same_inputs w1 ?t1 w2 ?t2"
    by (rule same_inputs_extend [OF Suc.prems(1), of _ "[DigitalRead (rowPins ! row) ?v]"])
       simp_all
  note ih = Suc.hyps(1) [OF n si wf1 wf2 Suc.prems(4)]
  have here: "matrix (readRows w1 col (Suc row) ?t1) ! col ! row =
      matrix (readRows w2 col (Suc row) ?t2) ! col ! row"
  proof -
    have "matrix (readRows w1 col (Suc row) ?t1) ! col ! row = matrix ?t1 ! col ! row"
      by (rule readRows_frame [OF wf1 Suc.prems(4)]) simp
    moreover have "matrix (readRows w2 col (Suc row) ?t2) ! col ! row = matrix ?t2 ! col ! row"
      by (rule readRows_frame [OF wf2 Suc.prems(4)]) simp
    moreover have "matrix ?t1 ! col ! row = ?v" "matrix ?t2 ! col ! row = ?v"
      using Suc.prems(2,3,4) lt by (simp_all add: wf_matrix_iff nth_store)
    ultimately show ?thesis by simp
  qed
  show ?case
    unfolding r1 r2
  proof (intro conjI allI impI)
    show "same_inputs w1 (readRows w1 col (Suc row) ?t1) w2 (readRows w2 col (Suc row) ?t2)"
      using ih by simp
  next
    fix r assume "row \<le> r" "r < 9"
    show "matrix (readRows w1 col (Suc row) ?t1) ! col ! r =
        matrix (readRows w2 col (Suc row) ?t2) ! col ! r"
    proof (cases "r = row")
      case True
      with here show ?thesis by simp
    next
      case False
      with \<open>row \<le> r\<close> have "Suc row \<le> r" by simp
      with ih \<open>r < 9\<close> show ?thesis by simp
    qed
  qed
qed

lemma scanColumns_same_inputs:
  "same_inputs w1 s1 w2 s2 \<Longrightarrow> wf_matrix (matrix s1) \<Longrightarrow> wf_matrix (matrix s2) \<Longrightarrow>
   col \<le> c \<Longrightarrow> c < 8 \<Longrightarrow> r < 9 \<Longrightarrow>
   matrix (scanColumns w1 col s1) ! c ! r = matrix (scanColumns w2 col s2) ! c ! r"
proof (induction "8 - col" arbitrary: col s1 s2)
  case (0 col s1 s2)
  then show ?case by simp
next
  case (Suc n col s1 s2)
  then have lt: "col < 8" and n: "n = 8 - Suc col" by simp_all
  let ?a1 = "emit (DelayMicroseconds 30) (activateColumn (columnSignals ! col) s1)"
  let ?a2 = "emit (DelayMicroseconds 30) (activateColumn (columnSignals ! col) s2)"
  let ?t1 = "readRows w1 col 0 ?a1"
  let ?t2 = "readRows w2 col 0 ?a2"
  have wfa: "wf_matrix (matrix ?a1)" "wf_matrix (matrix ?a2)"
    using Suc.prems(2,3) by simp_all
  have wft: "wf_matrix (matrix ?t1)" "wf_matrix (matrix ?t2)"
    by (rule wf_matrix_readRows [OF wfa(1)], rule wf_matrix_readRows [OF wfa(2)])
  have sa: "same_inputs w1 ?a1 w2 ?a2"
    by (rule same_inputs_extend [OF Suc.prems(1),
          of _ "[DigitalWrite latchpin LOW,
                 ShiftOut datapin clockpin LSBFIRST (columnSignals ! col),
                 DigitalWrite latchpin HIGH, DelayMicroseconds 30]"]) simp_all
  note rr = readRows_same_inputs [OF sa wfa lt, of 0]
  show ?case
    unfolding scanColumns_step [OF lt]
  proof (cases "c = col")
    case True
    have "matrix (scanColumns w1 (Suc col) ?t1) ! col ! r = matrix ?t1 ! col ! r"
      by (rule scanColumns_frame [OF wft(1)]) simp
    moreover have "matrix (scanColumns w2 (Suc col) ?t2) ! col ! r = matrix ?t2 ! col ! r"
      by (rule scanColumns_frame [OF wft(2)]) simp
    moreover have "matrix ?t1 ! col ! r = matrix ?t2 ! col ! r"
      using rr Suc.prems(6) by simp
    ultimately show "matrix (scanColumns w1 (Suc col) ?t1) ! c ! r =
        matrix (scanColumns w2 (Suc col) ?t2) ! c ! r"
      unfolding True by simp
  next
    case False
    with Suc.prems(4) have "Suc col \<le> c" by simp
    from Suc.hyps(1) [OF n _ wft this Suc.prems(5,6)] rr
    show "matrix (scanColumns w1 (Suc col) ?t1) ! c ! r =
        matrix (scanColumns w2 (Suc col) ?t2) ! c ! r"
      by simp
  qed
qed

lemma loop_same_inputs:
  assumes "same_inputs w1 s1 w2 s2" and "wf_matrix (matrix s1)" and "wf_matrix (matrix s2)"
  shows "matrix (loop w1 s1) = matrix (loop w2 s2)"
proof (rule wf_matrix_eqI)
  show "wf_matrix (matrix (loop w1 s1))" "wf_matrix (matrix (loop w2 s2))"
    using assms(2,3) by (simp_all add: wf_matrix_loop)
next
  fix c r :: nat assume "c < 8" "r < 9"
  then show "matrix (loop w1 s1) ! c ! r = matrix (loop w2 s2) ! c ! r"
    using scanColumns_same_inputs [OF assms, of 0 c r] by (simp add: matrix_loop)
qed

subsection \<open>The cadence gate\<close>

lemma gate_time_eq: "gate_time w s = clock w (trace (scanMatrix w s))"
  by (simp add: gate_time_def millis_def Let_def)

lemma stamp_time_eq:
  "stamp_time w s = clock w (trace (scanMatrix w s) @ [Millis (clock w (trace (scanMatrix w s)))])"
  by (simp add: stamp_time_def millis_def Let_def)

lemma emits_gate: "emits w s \<longleftrightarrow> printInterval \<le> gate_time w s - lastPrintTime s"
  by (simp add: emits_iff gate_time_eq)

lemma lastPrintTime_loop_stamp:
  "lastPrintTime (loop w s) = (if emits w s then stamp_time w s else lastPrintTime s)"
  by (simp add: lastPrintTime_loop stamp_time_eq)

lemma lastPrintTime_idle:
  "(\<forall>k<n. \<not> emits w ((loop w ^^ k) s)) \<Longrightarrow> lastPrintTime ((loop w ^^ n) s) = lastPrintTime s"
proof (induction n)
  case 0
  show ?case by simp
next
  case (Suc n)
  then have "\<not> emits w ((loop w ^^ n) s)" and "lastPrintTime ((loop w ^^ n) s) = lastPrintTime s"
    by simp_all
  then show ?case by (simp add: lastPrintTime_loop_stamp)
qed

lemma elapsed_no_wrap:
  fixes now last :: "32 word"
  shows "last \<le> now \<Longrightarrow> printInterval \<le> now - last \<longleftrightarrow> 1000 \<le> unat now - unat last"
  by (simp add: printInterval_def word_le_nat_alt unat_sub)

lemma nat_wrap_sub:
  fixes a b N :: nat
  assumes "a < N" and "b < N"
  shows "(if b \<le> a then a - b else a + N - b) = (a + N - b) mod N"
proof (cases "b \<le> a")
  case True
  then have "a + N - b = (a - b) + N" by simp
  then have "(a + N - b) mod N = (a - b) mod N" by simp
  also have "\<dots> = a - b" using assms(1) by simp
  finally show ?thesis using True by simp
next
  case False
  then have "a + N - b < N" using assms by simp
  then show ?thesis using False by simp
qed

lemma elapsed_modular:
  fixes now last :: "32 word"
  shows "unat (now - last) = (unat now + 2 ^ 32 - unat last) mod 2 ^ 32"
proof -
  have lt: "unat now < 2 ^ 32" "unat last < 2 ^ 32"
    using unsigned_less [of now, where 'a = nat] unsigned_less [of last, where 'a = nat]
    by simp_all
  have "unat (now - last) =
      (if unat last \<le> unat now then unat now - unat last
       else unat now + 2 ^ 32 - unat last)"
    by (simp add: unat_sub_if')
  also have "\<dots> = (unat now + 2 ^ 32 - unat last) mod 2 ^ 32"
    by (rule nat_wrap_sub [OF lt])
  finally show ?thesis .
qed

lemma elapsed_wrap:
  fixes last :: "32 word"
  shows "d < 2 ^ 32 \<Longrightarrow> printInterval \<le> (last + of_nat d) - last \<longleftrightarrow> 1000 \<le> d"
  by (simp add: printInterval_def word_le_nat_alt unat_of_nat)

subsection \<open>Calls of loop, one after the other\<close>

lemma trace_loop: "trace (loop w s) = trace s @ events_since s (loop w s)"
proof -
  have "trace (loop w s) = trace (scanMatrix w s) @ events_since (scanMatrix w s) (loop w s)"
    unfolding loop_def by (rule trace_report)
  then show ?thesis
    unfolding events_loop using trace_scanMatrix [of w s] by simp
qed

lemma events_two_loops:
  "events_since s (loop w (loop w s)) =
     events_since s (loop w s) @ events_since (loop w s) (loop w (loop w s))"
proof -
  have "trace (loop w (loop w s)) =
      trace s @ (events_since s (loop w s) @ events_since (loop w s) (loop w (loop w s)))"
    using trace_loop [of w "loop w s"] trace_loop [of w s] by simp
  then show ?thesis by (rule events_sinceI)
qed

lemma phases_scanColumns:
  "phases (events_since s (scanColumns w 0 s)) =
     concat (map (\<lambda>c. Drive (columnSignals ! c) # Settle 30 # map Sample rowPins) [0..<8])"
proof -
  have "phases (events_since s (scanMatrix w s)) = phases sweep_shape"
    using phases_erase [of "events_since s (scanMatrix w s)"]
    by (simp add: erase_scanMatrix)
  moreover have "phases [DigitalWrite latchpin LOW, ShiftOut datapin clockpin LSBFIRST 0,
      DigitalWrite latchpin HIGH] = [Drive 0]"
    by (simp add: phases_def)
  ultimately show ?thesis
    by (simp add: events_scanMatrix phases_sweep_shape)
qed

lemma list_all_take: "list_all P xs \<Longrightarrow> list_all P (take n xs)"
  by (auto simp add: list_all_iff dest: in_set_takeD)

lemma at_most_one_high_zero: "at_most_one_high 0"
  by (simp add: at_most_one_high_def)

section \<open>The claims\<close>

text \<open>
  C1. A call of \<open>loop\<close> makes 72 row reads. Taken in order, they are the reads
  of rows 0 to 8 under the pattern of column 0, then rows 0 to 8 under the pattern of
  column 1, and so on to column 7; the read of row \<open>r\<close> under column \<open>c\<close> is of
  pin \<open>rowPins ! r\<close>, and the value it returned is the entry \<open>matrix ! c ! r\<close> of the
  table afterwards.
\<close>

theorem sweep_samples_all_pairs:
  assumes "wf_matrix (matrix s)"
  shows "scans cur (events_since s (loop w s)) =
       concat (map (\<lambda>c. map (\<lambda>r. (columnSignals ! c, rowPins ! r, matrix (loop w s) ! c ! r))
                            [0..<9]) [0..<8])
     \<and> length (scans cur (events_since s (loop w s))) = 72
     \<and> wf_matrix (matrix (loop w s))"
proof -
  have "length (scans cur (events_since s (loop w s))) = 72"
    unfolding scans_loop [OF assms] by (simp add: length_concat comp_def sum_list_triv)
  with scans_loop [OF assms] wf_matrix_loop [OF assms] show ?thesis by simp
qed

theorem sweep_samples_all_pairs_witness:
  "wf_matrix (matrix init_state) \<and>
   length (scans 0 (events_since init_state (loop quiet_world init_state))) = 72 \<and>
   scans 0 (events_since init_state (loop quiet_world init_state)) =
     concat (map (\<lambda>c. map (\<lambda>r. (columnSignals ! c, rowPins ! r,
                                  matrix (loop quiet_world init_state) ! c ! r))
                          [0..<9]) [0..<8])"
proof -
  have wf: "wf_matrix (matrix init_state)"
    by (simp add: init_state_def wf_matrix_iff)
  show ?thesis
    using wf sweep_samples_all_pairs [OF wf, of 0 quiet_world] by blast
qed

text \<open>
  C2. The bytes sent to the shift register by the column loop are the eight
  entries of \<open>columnSignals\<close>, in index order; entry \<open>c\<close> is \<open>2 ^ c\<close>, the byte
  whose only set bit is bit \<open>c\<close>.
\<close>

theorem column_patterns_one_hot:
  "transmitted (events_since s (scanColumns w 0 s)) = columnSignals \<and>
   columnSignals = map (\<lambda>c. 2 ^ c) [0..<8] \<and>
   (\<forall>c<8. \<forall>i. bit (columnSignals ! c) i \<longleftrightarrow> i = c)"
proof -
  have "columnSignals = map (\<lambda>c. 2 ^ c) [0..<8]"
    by (simp add: columnSignals_def upt_conv_Cons)
  then show ?thesis
    by (simp add: transmitted_scanColumns bit_columnSignals)
qed

theorem column_patterns_one_hot_witness:
  "(3::nat) < 8 \<and> bit (columnSignals ! 3) 3 \<and> \<not> bit (columnSignals ! 3) 4 \<and>
   transmitted (events_since init_state (scanColumns quiet_world 0 init_state))
     = [1, 2, 4, 8, 16, 32, 64, 128]"
proof -
  have "bit (columnSignals ! 3) 3 \<and> \<not> bit (columnSignals ! 3) 4"
    using column_patterns_one_hot [of init_state quiet_world] by simp
  moreover have "transmitted (events_since init_state (scanColumns quiet_world 0 init_state))
      = [1, 2, 4, 8, 16, 32, 64, 128]"
    using column_patterns_one_hot [of init_state quiet_world] by (simp add: columnSignals_def)
  ultimately show ?thesis by simp
qed

text \<open>
  C3. On a keyboard whose only closed contact joins column 3 and row 5, a
  call of \<open>loop\<close> leaves the table with a one at column 3, row 5 and zeros
  everywhere else, whatever the table, the shift register and the clock were
  before.
\<close>

theorem single_contact_3_5:
  assumes "wf_matrix (matrix s)"
  shows "matrix (loop (keyboard [(3, 5)] h0 clk) s) =
     (replicate 8 (replicate 9 0))[3 := (replicate 9 0)[5 := 1]]"
proof (rule wf_matrix_eqI)
  show "wf_matrix (matrix (loop (keyboard [(3, 5)] h0 clk) s))"
    by (rule wf_matrix_loop [OF assms])
next
  show "wf_matrix ((replicate 8 (replicate 9 0))[3 := (replicate 9 0)[5 := 1]])"
    by (simp add: wf_matrix_iff nth_list_update)
next
  fix c r :: nat assume "c < 8" "r < 9"
  then show "matrix (loop (keyboard [(3, 5)] h0 clk) s) ! c ! r =
      (replicate 8 (replicate 9 0))[3 := (replicate 9 0)[5 := 1]] ! c ! r"
    by (simp add: loop_keyboard [OF assms] nth_list_update)
qed

theorem single_contact_3_5_witness:
  "wf_matrix (matrix init_state) \<and>
   matrix (loop (keyboard [(3, 5)] idle_hw (clock_at 0)) init_state) =
     [[0, 0, 0, 0, 0, 0, 0, 0, 0], [0, 0, 0, 0, 0, 0, 0, 0, 0],
      [0, 0, 0, 0, 0, 0, 0, 0, 0], [0, 0, 0, 0, 0, 1, 0, 0, 0],
      [0, 0, 0, 0, 0, 0, 0, 0, 0], [0, 0, 0, 0, 0, 0, 0, 0, 0],
      [0, 0, 0, 0, 0, 0, 0, 0, 0], [0, 0, 0, 0, 0, 0, 0, 0, 0]]"
proof -
  have wf: "wf_matrix (matrix init_state)"
    by (simp add: init_state_def wf_matrix_iff)
  show ?thesis
    using wf single_contact_3_5 [OF wf, of idle_hw "clock_at 0"]
    by (simp add: numeral_3_eq_3 eval_nat_numeral)
qed

text \<open>
  C4, as stated, asks that within a sweep a clear lie between any two
  activations. A call of \<open>loop\<close> is one sweep, and in it the column patterns
  follow one another with no zero byte between them.
\<close>

theorem clear_between_activations_counterexample:
  "\<not> clears_intervene (transmitted (events_since init_state (loop quiet_world init_state)))"
  by (simp add: transmitted_loop columnSignals_def)

text \<open>
  C4, amended. At every row read at most one column output is high, whatever
  state the shift register was in before the call. The bytes a call of
  \<open>loop\<close> sends are the eight column patterns, one after the other with no
  clear between them, and then one zero byte; every one of them has at most
  one bit set. Over two calls the zero byte of the first precedes the first
  pattern of the second.
\<close>

theorem one_column_high_at_reads:
  "exclusive_reads h (events_since s (loop w s)) \<and>
   transmitted (events_since s (loop w s)) = columnSignals @ [0] \<and>
   list_all at_most_one_high (transmitted (events_since s (loop w s))) \<and>
   transmitted (events_since s (loop w (loop w s))) =
     columnSignals @ [0] @ columnSignals @ [0]"
proof -
  have "list_all at_most_one_high (columnSignals @ [0])"
    by (simp add: columnSignals_def at_most_one_high_lits at_most_one_high_zero)
  then show ?thesis
    by (simp add: exclusive_reads_loop transmitted_loop events_two_loops)
qed

text \<open>
  C5. \<open>activateColumn\<close> and \<open>clearAllColumns\<close> make the same three calls:
  latch line low, the byte shifted out least-significant bit first on the data
  and clock pins, latch line high. \<open>clearAllColumns\<close> is \<open>activateColumn\<close> of
  the zero byte. On the shift register the byte sent is on the outputs
  afterwards.
\<close>

theorem driver_bus_protocol:
  "events_since s (activateColumn v s) =
     [DigitalWrite latchpin LOW, ShiftOut datapin clockpin LSBFIRST v,
      DigitalWrite latchpin HIGH] \<and>
   events_since s (clearAllColumns s) =
     [DigitalWrite latchpin LOW, ShiftOut datapin clockpin LSBFIRST 0,
      DigitalWrite latchpin HIGH] \<and>
   clearAllColumns s = activateColumn 0 s \<and>
   outputs (hw_after h (events_since s (activateColumn v s))) = v \<and>
   outputs (hw_after h (events_since s (clearAllColumns s))) = 0"
  by (simp add: clearAllColumns_eq events_since_def)

text \<open>
  C6. The events of a call of \<open>loop\<close> are those of the column loop, then the
  three events of \<open>clearAllColumns\<close>, then those of the report. The column loop
  holds all eight columns' activations, delays and reads; the report sends
  nothing to the shift register; so the zero byte is sent exactly once. From
  the clear on, through every event of the report, no column output is high.
\<close>

theorem clear_once_after_columns:
  "events_since s (loop w s) =
     events_since s (scanColumns w 0 s)
     @ [DigitalWrite latchpin LOW, ShiftOut datapin clockpin LSBFIRST 0,
        DigitalWrite latchpin HIGH]
     @ events_since (scanMatrix w s) (loop w s) \<and>
   phases (events_since s (scanColumns w 0 s)) =
     concat (map (\<lambda>c. Drive (columnSignals ! c) # Settle 30 # map Sample rowPins) [0..<8]) \<and>
   phases (events_since (scanMatrix w s) (loop w s)) = [] \<and>
   count_list (transmitted (events_since s (loop w s))) 0 = 1 \<and>
   outputs (hw_after h (events_since s (scanMatrix w s)
              @ take n (events_since (scanMatrix w s) (loop w s)))) = 0"
proof -
  have a: "events_since s (loop w s) =
      events_since s (scanColumns w 0 s)
      @ [DigitalWrite latchpin LOW, ShiftOut datapin clockpin LSBFIRST 0,
         DigitalWrite latchpin HIGH]
      @ events_since (scanMatrix w s) (loop w s)"
    by (simp add: events_loop events_scanMatrix)
  have b: "phases (events_since (scanMatrix w s) (loop w s)) = []"
    by (rule report_phases [OF loop_report_quiet])
  have c: "count_list (transmitted (events_since s (loop w s))) 0 = 1"
    by (simp add: transmitted_loop columnSignals_def)
  have "hw_after h' (take n (events_since (scanMatrix w s) (loop w s))) = h'" for h'
    by (rule report_hw_after [OF list_all_take [OF loop_report_quiet]])
  then have d: "outputs (hw_after h (events_since s (scanMatrix w s)
      @ take n (events_since (scanMatrix w s) (loop w s)))) = 0"
    by (simp add: hw_after_scanMatrix)
  from a phases_scanColumns [of s w] b c d show ?thesis by blast
qed

text \<open>
  C7. Where the reading of the clock at the gate is not below the stored
  timestamp (the clock has not gone back), a call of \<open>loop\<close> writes to the serial
  port exactly when the reading exceeds the timestamp by 1000 or more. When it
  writes, the timestamp becomes the reading that \<open>millis()\<close> returns at line 111;
  when it does not, the timestamp stays. The sweep never touches the timestamp,
  so after any number of calls that did not write it is still that of the last
  report.
\<close>

theorem reporter_cadence:
  assumes "lastPrintTime s \<le> gate_time w s"
  shows "(emits w s \<longleftrightarrow> 1000 \<le> unat (gate_time w s) - unat (lastPrintTime s)) \<and>
     lastPrintTime (loop w s) = (if emits w s then stamp_time w s else lastPrintTime s) \<and>
     lastPrintTime (scanMatrix w s) = lastPrintTime s \<and>
     ((\<forall>k<n. \<not> emits w ((loop w ^^ k) s)) \<longrightarrow>
        lastPrintTime ((loop w ^^ n) s) = lastPrintTime s)"
  using elapsed_no_wrap [OF assms] lastPrintTime_idle [of n w s]
  by (simp add: emits_gate lastPrintTime_loop_stamp)

theorem reporter_cadence_witness:
  "lastPrintTime init_state \<le> gate_time (quiet_world\<lparr>clock := clock_at 1500\<rparr>) init_state \<and>
   emits (quiet_world\<lparr>clock := clock_at 1500\<rparr>) init_state \<and>
   lastPrintTime (loop (quiet_world\<lparr>clock := clock_at 1500\<rparr>) init_state) = 1500"
  using reporter_cadence [of init_state "quiet_world\<lparr>clock := clock_at 1500\<rparr>" 0]
  by (simp add: gate_time_eq stamp_time_eq quiet_world_def clock_at_def init_state_def)

text \<open>
  C8. With the values read forgotten, the events of the column loop are, for
  each column in turn: latch low, the column's pattern shifted out, latch
  high, a delay of 30 microseconds, then the nine row reads. So in a call of
  \<open>loop\<close> every read comes after the delay of its column, and the delay after
  the activation.
\<close>

theorem settle_before_reads:
  "map erase (events_since s (scanColumns w 0 s)) =
     concat (map (\<lambda>c. [DigitalWrite latchpin LOW,
                       ShiftOut datapin clockpin LSBFIRST (columnSignals ! c),
                       DigitalWrite latchpin HIGH, DelayMicroseconds 30]
                      @ map (\<lambda>r. DigitalRead (rowPins ! r) 0) [0..<9]) [0..<8]) \<and>
   phases (events_since s (loop w s)) =
     concat (map (\<lambda>c. Drive (columnSignals ! c) # Settle 30 # map Sample rowPins) [0..<8])
     @ [Drive 0]"
proof -
  have "map erase (events_since s (scanColumns w 0 s)) =
     concat (map (\<lambda>c. [DigitalWrite latchpin LOW,
                       ShiftOut datapin clockpin LSBFIRST (columnSignals ! c),
                       DigitalWrite latchpin HIGH, DelayMicroseconds 30]
                      @ map (\<lambda>r. DigitalRead (rowPins ! r) 0) [0..<9]) [0..<8])"
    using scanColumns_shape [of 0 w s] by (auto simp add: events_since_def)
  with phases_loop [of s w] show ?thesis by blast
qed

text \<open>
  C9. The gate compares the 32-bit difference of the clock reading and the
  stored timestamp with 1000, and that difference is the true one modulo
  \<open>2 ^ 32\<close>. So when \<open>d\<close> milliseconds, fewer than \<open>2 ^ 32\<close>, have passed since
  the timestamp, the gate opens exactly when \<open>d\<close> is at least 1000, also when
  the clock has wrapped around in between.
\<close>

theorem cadence_gate_modular:
  "(emits w s \<longleftrightarrow> 1000 \<le> unat (gate_time w s - lastPrintTime s)) \<and>
   unat (gate_time w s - lastPrintTime s) =
     (unat (gate_time w s) + 2 ^ 32 - unat (lastPrintTime s)) mod 2 ^ 32 \<and>
   (\<forall>d<2 ^ 32. gate_time w s = lastPrintTime s + of_nat d \<longrightarrow> (emits w s \<longleftrightarrow> 1000 \<le> d))"
proof -
  have "emits w s \<longleftrightarrow> 1000 \<le> unat (gate_time w s - lastPrintTime s)"
    by (simp add: emits_gate printInterval_def word_le_nat_alt)
  moreover have "emits w s \<longleftrightarrow> 1000 \<le> d"
    if "d < 2 ^ 32" "gate_time w s = lastPrintTime s + of_nat d" for d :: nat
    using elapsed_wrap [OF that(1), of "lastPrintTime s"] that(2) by (simp add: emits_gate)
  ultimately show ?thesis
    using elapsed_modular [of "gate_time w s" "lastPrintTime s"] by blast
qed

theorem cadence_gate_modular_witness:
  "(1000::nat) < 2 ^ 32 \<and>
   gate_time (quiet_world\<lparr>clock := clock_at 744\<rparr>) (init_state\<lparr>lastPrintTime := 4294967040\<rparr>)
     = lastPrintTime (init_state\<lparr>lastPrintTime := 4294967040\<rparr>) + of_nat 1000 \<and>
   gate_time (quiet_world\<lparr>clock := clock_at 744\<rparr>) (init_state\<lparr>lastPrintTime := 4294967040\<rparr>)
     < lastPrintTime (init_state\<lparr>lastPrintTime := 4294967040\<rparr>) \<and>
   emits (quiet_world\<lparr>clock := clock_at 744\<rparr>) (init_state\<lparr>lastPrintTime := 4294967040\<rparr>)"
proof -
  let ?w = "quiet_world\<lparr>clock := clock_at 744\<rparr>"
  let ?s = "init_state\<lparr>lastPrintTime := 4294967040\<rparr>"
  have g: "gate_time ?w ?s = lastPrintTime ?s + of_nat 1000"
    by (simp add: gate_time_eq clock_at_def)
  have "gate_time ?w ?s < lastPrintTime ?s"
    by (simp add: gate_time_eq clock_at_def)
  moreover have "emits ?w ?s"
    using cadence_gate_modular [of ?w ?s] g by auto
  ultimately show ?thesis using g by simp
qed

text \<open>
  C10. The report leaves the table as the sweep left it. Two calls of \<open>loop\<close>
  that see the same row lines end with the same table, whatever their clocks
  and stored timestamps are, and whether or not either of them prints.
\<close>

theorem report_never_writes_snapshot:
  assumes "same_inputs w1 s1 w2 s2" and "wf_matrix (matrix s1)" and "wf_matrix (matrix s2)"
  shows "matrix (loop w1 s1) = matrix (loop w2 s2) \<and>
     matrix (report w1 s1) = matrix s1 \<and>
     matrix (loop w1 s1) = matrix (scanMatrix w1 s1)"
  using loop_same_inputs [OF assms] by (simp add: loop_def)

theorem report_never_writes_snapshot_witness:
  "same_inputs (keyboard [(3, 5)] idle_hw (clock_at 0)) init_state
     (keyboard [(3, 5)] idle_hw (clock_at 1500)) (init_state\<lparr>lastPrintTime := 7\<rparr>) \<and>
   wf_matrix (matrix init_state) \<and>
   wf_matrix (matrix (init_state\<lparr>lastPrintTime := 7\<rparr>)) \<and>
   \<not> emits (keyboard [(3, 5)] idle_hw (clock_at 0)) init_state \<and>
   emits (keyboard [(3, 5)] idle_hw (clock_at 1500)) (init_state\<lparr>lastPrintTime := 7\<rparr>) \<and>
   matrix (loop (keyboard [(3, 5)] idle_hw (clock_at 0)) init_state) =
     matrix (loop (keyboard [(3, 5)] idle_hw (clock_at 1500)) (init_state\<lparr>lastPrintTime := 7\<rparr>))"
proof -
  let ?w1 = "keyboard [(3, 5)] idle_hw (clock_at 0)"
  let ?w2 = "keyboard [(3, 5)] idle_hw (clock_at 1500)"
  let ?s2 = "init_state\<lparr>lastPrintTime := 7\<rparr>"
  have si: "same_inputs ?w1 init_state ?w2 ?s2"
    by (simp add: same_inputs_def)
  have wf: "wf_matrix (matrix init_state)" "wf_matrix (matrix ?s2)"
    by (simp_all add: init_state_def wf_matrix_iff)
  have e1: "\<not> emits ?w1 init_state"
    by (simp add: emits_iff keyboard_def clock_at_def init_state_def printInterval_def)
  have e2: "emits ?w2 ?s2"
    by (simp add: emits_iff keyboard_def clock_at_def printInterval_def)
  show ?thesis
    using si wf e1 e2 report_never_writes_snapshot [OF si wf] by blast
qed

end
